theory Spec2Isabelle
  imports Main "HOL-Library.Sublist"
begin

section \<open>Identifier codec\<close>

text \<open>
  The presenter calls \<^verbatim>\<open>toBaseN\<close> and \<^verbatim>\<open>parseIntBase\<close> of
  \<^verbatim>\<open>scripted_core.hpp\<close>, a header that is not among the sources.  The two
  functions below follow section 4.1 of the specification instead.
\<close>

text \<open>Modelled from the spec: the fixed digit alphabet of \<^verbatim>\<open>encode\<close>
  (\<^verbatim>\<open>toBaseN\<close> in scripted_core.hpp, absent), "0-9 then letters"; the concrete
  scenario of section 8 renders ten in base sixteen as \<^verbatim>\<open>a\<close>, so the letters are
  the lower-case ones.\<close>

definition alphabet :: string where
  "alphabet = ''0123456789abcdefghijklmnopqrstuvwxyz''"

text \<open>Modelled from the spec: the digit of a value below the base, read off the
  alphabet (part of \<^verbatim>\<open>toBaseN\<close>, absent).\<close>

definition digit_char :: "nat \<Rightarrow> char" where
  "digit_char d = alphabet ! d"

text \<open>Modelled from the spec: the natural digits of a non-negative integer in the given
  base, most significant first (the rendering step of \<^verbatim>\<open>encode\<close>, absent).  Zero has
  the one digit \<^verbatim>\<open>0\<close>.  The specification fixes bases 2 to 36 only; outside that
  range the model stops after one digit.\<close>

function digits :: "nat \<Rightarrow> nat \<Rightarrow> string" where
  "digits b v =
     (if b < 2 \<or> v < b then [digit_char v]
      else digits b (v div b) @ [digit_char (v mod b)])"
  by pat_completeness auto
termination
  by (relation "measure (\<lambda>(b, v). v)") auto

declare digits.simps [simp del]

text \<open>Modelled from the spec: \<^verbatim>\<open>encode(value, base, width)\<close> (\<^verbatim>\<open>toBaseN\<close>, absent):
  the digits, left-padded with \<^verbatim>\<open>0\<close> to \<open>width\<close> characters; a longer rendering
  is not truncated.\<close>

definition encode :: "nat \<Rightarrow> nat \<Rightarrow> nat \<Rightarrow> string" where
  "encode v b w =
     (let ds = digits b v in replicate (w - length ds) (CHR ''0'') @ ds)"

text \<open>Modelled from the spec: the position of a character in the digit alphabet, if it
  has one.\<close>

fun index_of :: "char \<Rightarrow> string \<Rightarrow> nat option" where
  "index_of c [] = None"
| "index_of c (x # xs) = (if c = x then Some 0 else map_option Suc (index_of c xs))"

text \<open>Modelled from the spec: the value of a digit character (part of
  \<^verbatim>\<open>parseIntBase\<close>, absent); \<open>None\<close> for a character outside the alphabet.\<close>

definition digit_val :: "char \<Rightarrow> nat option" where
  "digit_val c = index_of c alphabet"

text \<open>Modelled from the spec: "trimming surrounding whitespace" in \<^verbatim>\<open>decode\<close>
  (\<^verbatim>\<open>parseIntBase\<close> and \<^verbatim>\<open>trim\<close>, absent); whitespace is taken to be the six characters
  of \<^verbatim>\<open>isspace\<close>.\<close>

definition is_space :: "char \<Rightarrow> bool" where
  "is_space c = (c \<in> set [CHR '' '', CHR 0x09, CHR 0x0A, CHR 0x0B, CHR 0x0C, CHR 0x0D])"

text \<open>Modelled from the spec: \<^verbatim>\<open>trim\<close> (scripted_core.hpp, absent) removes the
  whitespace at both ends.\<close>

definition trim :: "string \<Rightarrow> string" where
  "trim s = rev (dropWhile is_space (rev (dropWhile is_space s)))"

text \<open>Modelled from the spec: the digit loop of \<^verbatim>\<open>decode\<close> (\<^verbatim>\<open>parseIntBase\<close>, absent);
  a character without a digit value below the base ends it with \<open>None\<close>.\<close>

fun decode_from :: "nat \<Rightarrow> nat \<Rightarrow> string \<Rightarrow> nat option" where
  "decode_from b acc [] = Some acc"
| "decode_from b acc (c # cs) =
     (case digit_val c of
        None \<Rightarrow> None
      | Some d \<Rightarrow> if d < b then decode_from b (acc * b + d) cs else None)"

text \<open>Modelled from the spec: \<^verbatim>\<open>decode(text, base)\<close> (\<^verbatim>\<open>parseIntBase\<close>, absent).
  \<open>None\<close> is the ParseError: the text is empty after trimming surrounding whitespace, or
  holds a character outside the alphabet of the base (a minus sign among them).\<close>

definition decode :: "string \<Rightarrow> nat \<Rightarrow> nat option" where
  "decode text b =
     (let t = trim text in if t = [] then None else decode_from b 0 t)"

section \<open>Containers and the data model\<close>

text \<open>
  A \<^verbatim>\<open>std::map\<close> is modelled by its sequence of entries in iteration order, which is
  ascending key order.  \<open>wf_map\<close> is the representation invariant (strictly ascending
  keys); every operation below preserves it.
\<close>

definition wf_map :: "('k::linorder \<times> 'v) list \<Rightarrow> bool" where
  "wf_map m = sorted_wrt (<) (map fst m)"

text \<open>\<^verbatim>\<open>m.find(k)\<close> is \<open>map_of m k\<close>: \<open>None\<close> stands for \<^verbatim>\<open>m.end()\<close>.\<close>

text \<open>The map after \<^verbatim>\<open>m[k] = v\<close>: the entry is overwritten, or inserted at its place
  in key order.\<close>

fun assign :: "'k::linorder \<Rightarrow> 'v \<Rightarrow> ('k \<times> 'v) list \<Rightarrow> ('k \<times> 'v) list" where
  "assign k v [] = [(k, v)]"
| "assign k v ((k', v') # m) =
     (if k < k' then (k, v) # (k', v') # m
      else if k = k' then (k, v) # m
      else (k', v') # assign k v m)"

text \<open>The map after \<^verbatim>\<open>m.erase(k)\<close>; the call returns 1 when \<open>map_of m k\<close> is not
  \<open>None\<close> and 0 otherwise.\<close>

fun erase_key :: "'k \<Rightarrow> ('k \<times> 'v) list \<Rightarrow> ('k \<times> 'v) list" where
  "erase_key k [] = []"
| "erase_key k ((k', v') # m) = (if k = k' then m else (k', v') # erase_key k m)"

text \<open>\<^verbatim>\<open>m[k]\<close> read as a reference: the mapped value and the map afterwards, which has
  gained a default-constructed entry \<open>d\<close> when the key was absent.\<close>

definition at :: "'k::linorder \<Rightarrow> 'v \<Rightarrow> ('k \<times> 'v) list \<Rightarrow> 'v \<times> ('k \<times> 'v) list" where
  "at k d m = (case map_of m k of Some v \<Rightarrow> (v, m) | None \<Rightarrow> (d, assign k d m))"

text \<open>
  \<^verbatim>\<open>Bank\<close>, \<^verbatim>\<open>Workspace\<close> and \<^verbatim>\<open>Config\<close> are declared in the absent
  \<^verbatim>\<open>scripted_core.hpp\<close>; the records hold the members the sources read and write
  (\<^verbatim>\<open>b.title\<close>, \<^verbatim>\<open>b.regs\<close>, \<^verbatim>\<open>ws.banks\<close>, \<^verbatim>\<open>cfg.prefix\<close>, \<^verbatim>\<open>cfg.base\<close> and
  the three widths).  Ids are \<^verbatim>\<open>long long\<close>; no operation here does arithmetic on
  them, so \<open>int\<close> stands for the type.
\<close>

record bank =
  title :: string
  regs :: "(int \<times> (int \<times> string) list) list"

record workspace =
  banks :: "(int \<times> bank) list"

record config =
  cfg_prefix :: char
  base :: int
  widthBank :: int
  widthReg :: int
  widthAddr :: int

text \<open>The value-initialised \<^verbatim>\<open>Bank\<close> that \<^verbatim>\<open>ws.banks[id]\<close> creates for an absent
  key.\<close>

definition empty_bank :: bank where
  "empty_bank = \<lparr>title = [], regs = []\<rparr>"

text \<open>\<^verbatim>\<open>struct Row\<close> of frontend_contract.hpp.\<close>

record row =
  reg :: int
  addr :: int
  val :: string

text \<open>The calls a presenter makes on \<^verbatim>\<open>IView\<close>, in order.  \<^verbatim>\<open>postToUi\<close> is not an
  event: the posted closure goes into the queue \<open>posted\<close> of the state.\<close>

datatype view_event =
    ShowStatus string
  | ShowRows "row list"
  | ShowCurrent "int option"
  | ShowBankList "(int \<times> string) list"
  | SetBusy bool

type_synonym fs = "string \<rightharpoonup> string"

section \<open>The absent core, as a parameter\<close>

text \<open>
  The functions of \<^verbatim>\<open>scripted_core.hpp\<close> that the presenter calls.  The header is not
  among the sources, so the presenter is modelled for an arbitrary implementation of
  them.  A function that reads the disk takes the files; \<^verbatim>\<open>saveContextFile\<close> returns
  them.  Reference parameters come back as results: \<^verbatim>\<open>openCtx\<close> returns its verdict,
  the workspace and the status text, \<^verbatim>\<open>parseIntBase\<close> takes the old value of its
  out-parameter and returns the new one.  An exception leaving \<^verbatim>\<open>resolveBankToText\<close>
  or \<^verbatim>\<open>exportBankToJSON\<close> is \<open>Inl\<close> of its message.  \<^verbatim>\<open>loadConfig\<close> is applied to
  the files because the \<^verbatim>\<open>Paths\<close> of a presenter never change.
\<close>

record core =
  loadConfig :: "fs \<Rightarrow> config"
  preloadAll :: "config \<Rightarrow> fs \<Rightarrow> workspace \<Rightarrow> workspace"
  openCtx :: "config \<Rightarrow> fs \<Rightarrow> workspace \<Rightarrow> string \<Rightarrow> bool \<times> workspace \<times> string"
  parseIntBase :: "string \<Rightarrow> int \<Rightarrow> int \<Rightarrow> bool \<times> int"
  toBaseN :: "int \<Rightarrow> int \<Rightarrow> int \<Rightarrow> string"
  contextFileName :: "config \<Rightarrow> int \<Rightarrow> string"
  saveContextFile :: "config \<Rightarrow> string \<Rightarrow> bank \<Rightarrow> fs \<Rightarrow> bool \<times> fs \<times> string"
  resolveBankToText :: "config \<Rightarrow> workspace \<Rightarrow> int \<Rightarrow> string + string"
  exportBankToJSON :: "config \<Rightarrow> workspace \<Rightarrow> int \<Rightarrow> string + string"
  outResolvedName :: "config \<Rightarrow> int \<Rightarrow> string"
  outJsonName :: "config \<Rightarrow> int \<Rightarrow> string"

section \<open>The presenter (presenter.hpp)\<close>

datatype job_kind = ResolveJob | ExportJob

text \<open>A detached worker thread that has not run its body yet: what its closure
  captured by value (\<^verbatim>\<open>[this,id]\<close>).  Everything else it reaches through \<^verbatim>\<open>this\<close>
  when it runs.\<close>

record job =
  kind :: job_kind
  job_id :: int

text \<open>A closure handed to \<^verbatim>\<open>postToUi\<close>: \<^verbatim>\<open>[this,ok,path]\<close>.\<close>

record completion =
  ckind :: job_kind
  ok :: bool
  path :: string

text \<open>
  The members of \<^verbatim>\<open>Presenter\<close> (\<open>cfg\<close> to \<open>filter_s\<close>) and the world around it: the
  calls received by the view, the worker threads in flight, the closures waiting in the
  UI queue, and the files.
\<close>

record presenter =
  cfg :: config
  ws :: workspace
  current :: "int option"
  dirty :: bool
  busy :: bool
  filter_s :: string
  view :: "view_event list"
  workers :: "job list"
  posted :: "completion list"
  files :: fs

definition showStatus :: "string \<Rightarrow> presenter \<Rightarrow> presenter" where
  "showStatus msg s = s\<lparr>view := view s @ [ShowStatus msg]\<rparr>"

text \<open>\<^verbatim>\<open>std::to_string\<close> on a \<^verbatim>\<open>size_t\<close>: decimal digits.\<close>

function to_string :: "nat \<Rightarrow> string" where
  "to_string n =
     (if n < 10 then [char_of (48 + n)]
      else to_string (n div 10) @ [char_of (48 + n mod 10)])"
  by pat_completeness auto
termination
  by (relation "measure id") auto

declare to_string.simps [simp del]

definition pushBanks :: "presenter \<Rightarrow> presenter" where
  "pushBanks s =
     s\<lparr>view := view s @
        [ShowBankList (map (\<lambda>(i, b). (i, title b)) (banks (ws s))),
         ShowCurrent (current s)]\<rparr>"

text \<open>\<^verbatim>\<open>::tolower\<close> in the "C" locale.\<close>

definition tolower :: "char \<Rightarrow> char" where
  "tolower c =
     (let n = (of_char c :: nat) in if 65 \<le> n \<and> n \<le> 90 then char_of (n + 32) else c)"

text \<open>\<^verbatim>\<open>h.find(f)\<close>: the first position at which \<open>f\<close> occurs in \<open>h\<close>; \<open>None\<close> is
  \<^verbatim>\<open>npos\<close>.\<close>

fun str_find :: "string \<Rightarrow> string \<Rightarrow> nat option" where
  "str_find [] f = (if f = [] then Some 0 else None)"
| "str_find (c # cs) f =
     (if prefix f (c # cs) then Some 0 else map_option Suc (str_find cs f))"

text \<open>The lambda \<^verbatim>\<open>contains\<close> of \<^verbatim>\<open>refreshRows\<close>; \<open>f\<close> is the lowered filter.\<close>

definition contains :: "string \<Rightarrow> string \<Rightarrow> bool" where
  "contains f s = (str_find (map tolower s) f \<noteq> None)"

text \<open>The two nested loops of \<^verbatim>\<open>refreshRows\<close>.\<close>

definition bank_rows :: "bank \<Rightarrow> row list" where
  "bank_rows b =
     concat (map (\<lambda>(rid, addrs). map (\<lambda>(aid, v). \<lparr>reg = rid, addr = aid, val = v\<rparr>) addrs)
       (regs b))"

definition row_shown :: "core \<Rightarrow> config \<Rightarrow> string \<Rightarrow> row \<Rightarrow> bool" where
  "row_shown K c f r =
     (contains f (toBaseN K (reg r) (base c) (widthReg c)) \<or>
      contains f (toBaseN K (addr r) (base c) (widthAddr c)) \<or>
      contains f (val r))"

text \<open>The rows \<^verbatim>\<open>refreshRows\<close> hands to the view for a selected bank \<open>b\<close> under the
  filter text \<open>t\<close>.\<close>

definition visible_rows :: "core \<Rightarrow> config \<Rightarrow> string \<Rightarrow> bank \<Rightarrow> row list" where
  "visible_rows K c t b =
     (let rows = bank_rows b
      in if t \<noteq> [] then filter (row_shown K c (map tolower t)) rows else rows)"

definition refreshRows :: "core \<Rightarrow> presenter \<Rightarrow> presenter" where
  "refreshRows K s =
     (case current s of
        None \<Rightarrow> s\<lparr>view := view s @ [ShowRows [], ShowCurrent None]\<rparr>
      | Some i \<Rightarrow>
          (let (b, bs) = at i empty_bank (banks (ws s))
           in s\<lparr>ws := (ws s)\<lparr>banks := bs\<rparr>,
                 view := view s @
                   [ShowRows (visible_rows K (cfg s) (filter_s s) b), ShowCurrent (Some i)]\<rparr>))"

definition preload :: "core \<Rightarrow> presenter \<Rightarrow> presenter" where
  "preload K s =
     (let s1 = s\<lparr>ws := preloadAll K (cfg s) (files s) (ws s)\<rparr>;
          s2 = pushBanks s1;
          s3 = showStatus (''Preloaded '' @ to_string (length (banks (ws s2))) @ '' banks.'') s2
      in refreshRows K s3)"

definition openOrSwitch :: "core \<Rightarrow> presenter \<Rightarrow> string \<Rightarrow> presenter" where
  "openOrSwitch K s nameOrStem =
     (let (opened, w, status) = openCtx K (cfg s) (files s) (ws s) nameOrStem
      in if \<not> opened then showStatus status (s\<lparr>ws := w\<rparr>)
         else
           let stem = (if length nameOrStem > 4 \<and> suffix ''.txt'' nameOrStem
                       then take (length nameOrStem - 4) nameOrStem else nameOrStem);
               token = (if stem \<noteq> [] \<and> hd stem = cfg_prefix (cfg s) then tl stem else stem);
               (parsed, i) = parseIntBase K token (base (cfg s)) 0;
               s1 = s\<lparr>ws := w, current := Some i, dirty := False\<rparr>
           in showStatus status (refreshRows K (pushBanks s1)))"

definition insert_p :: "core \<Rightarrow> presenter \<Rightarrow> int \<Rightarrow> int \<Rightarrow> string \<Rightarrow> presenter" where
  "insert_p K s r a v =
     (case current s of
        None \<Rightarrow> showStatus ''No current context'' s
      | Some i \<Rightarrow>
          (let (b, bs) = at i empty_bank (banks (ws s));
               (as, rs) = at r [] (regs b);
               b' = b\<lparr>regs := assign r (assign a v as) rs\<rparr>;
               s1 = s\<lparr>ws := (ws s)\<lparr>banks := assign i b' bs\<rparr>, dirty := True\<rparr>
           in showStatus
                (''Updated '' @ toBaseN K r (base (cfg s)) (widthReg (cfg s)) @ ''.'' @
                 toBaseN K a (base (cfg s)) (widthAddr (cfg s)))
                (refreshRows K s1)))"

definition erase :: "core \<Rightarrow> presenter \<Rightarrow> int \<Rightarrow> int \<Rightarrow> presenter" where
  "erase K s r a =
     (case current s of
        None \<Rightarrow> showStatus ''No current context'' s
      | Some i \<Rightarrow>
          (let (b, bs) = at i empty_bank (banks (ws s));
               s0 = s\<lparr>ws := (ws s)\<lparr>banks := bs\<rparr>\<rparr>
           in case map_of (regs b) r of
                None \<Rightarrow> s0
              | Some as \<Rightarrow>
                  if map_of as a \<noteq> None
                  then
                    let b' = b\<lparr>regs := assign r (erase_key a as) (regs b)\<rparr>;
                        s1 = s0\<lparr>ws := (ws s)\<lparr>banks := assign i b' bs\<rparr>, dirty := True\<rparr>
                    in showStatus ''Deleted.'' (refreshRows K s1)
                  else s0))"

definition save :: "core \<Rightarrow> presenter \<Rightarrow> presenter" where
  "save K s =
     (case current s of
        None \<Rightarrow> showStatus ''No current context'' s
      | Some i \<Rightarrow>
          (let p = contextFileName K (cfg s) i;
               (b, bs) = at i empty_bank (banks (ws s));
               (saved, fs', err) = saveContextFile K (cfg s) p b (files s);
               s0 = s\<lparr>ws := (ws s)\<lparr>banks := bs\<rparr>, files := fs'\<rparr>
           in if \<not> saved then showStatus (''Save failed: '' @ err) s0
              else showStatus (''Saved '' @ p) (s0\<lparr>dirty := False\<rparr>)))"

text \<open>\<^verbatim>\<open>busy.exchange(true)\<close> returns the old flag and leaves it set; the thread is
  created only when the old flag was clear.\<close>

definition dispatch :: "job_kind \<Rightarrow> presenter \<Rightarrow> presenter" where
  "dispatch k s =
     (case current s of
        None \<Rightarrow> showStatus ''No current context'' s
      | Some i \<Rightarrow>
          if busy s then showStatus ''Busy...'' (s\<lparr>busy := True\<rparr>)
          else s\<lparr>busy := True,
                 view := view s @ [SetBusy True],
                 workers := workers s @ [\<lparr>kind = k, job_id = i\<rparr>]\<rparr>)"

definition resolveAsync :: "presenter \<Rightarrow> presenter" where
  "resolveAsync s = dispatch ResolveJob s"

definition exportAsync :: "presenter \<Rightarrow> presenter" where
  "exportAsync s = dispatch ExportJob s"

text \<open>The call a worker makes on the core, \<^verbatim>\<open>resolveBankToText(cfg, ws, id)\<close> or
  \<^verbatim>\<open>exportBankToJSON(cfg, ws, id)\<close>, and the name of its output file.\<close>

definition job_result :: "core \<Rightarrow> config \<Rightarrow> workspace \<Rightarrow> job \<Rightarrow> string + string" where
  "job_result K c w j =
     (case kind j of
        ResolveJob \<Rightarrow> resolveBankToText K c w (job_id j)
      | ExportJob \<Rightarrow> exportBankToJSON K c w (job_id j))"

definition job_output :: "core \<Rightarrow> config \<Rightarrow> job \<Rightarrow> string" where
  "job_output K c j =
     (case kind j of
        ResolveJob \<Rightarrow> outResolvedName K c (job_id j)
      | ExportJob \<Rightarrow> outJsonName K c (job_id j))"

text \<open>
  What became of \<^verbatim>\<open>std::ofstream out(outp, std::ios::binary); out<<txt;\<close>.  The code
  checks neither the open nor the write.  Either the stream did not open and the files are
  as before, or it opened, which empties the file, and the first \<open>n\<close> characters of the
  text reached it: all of the text when \<open>n\<close> is at least its length.
\<close>

datatype ofstream = OpenFailed | Wrote nat

fun ofstream_write :: "ofstream \<Rightarrow> fs \<Rightarrow> string \<Rightarrow> string \<Rightarrow> fs" where
  "ofstream_write OpenFailed fs p txt = fs"
| "ofstream_write (Wrote n) fs p txt = fs(p \<mapsto> take n txt)"

text \<open>
  The body of the detached thread, run as one step at some later time: it reads
  \<^verbatim>\<open>cfg\<close> and \<^verbatim>\<open>ws\<close> through \<^verbatim>\<open>this\<close> as they are then, hands the text to an
  \<^verbatim>\<open>ofstream\<close> when nothing was thrown, and posts the completion closure, with
  \<^verbatim>\<open>ok\<close> true whatever became of the stream.  \<open>n\<close> picks the thread among those in
  flight, \<open>st\<close> is what becomes of the stream.
\<close>

definition worker_run :: "core \<Rightarrow> presenter \<Rightarrow> nat \<Rightarrow> ofstream \<Rightarrow> presenter" where
  "worker_run K s n st =
     (if n < length (workers s) then
        (let j = workers s ! n;
             rest = take n (workers s) @ drop (Suc n) (workers s)
         in case job_result K (cfg s) (ws s) j of
              Inl e \<Rightarrow>
                s\<lparr>workers := rest,
                  posted := posted s @ [\<lparr>ckind = kind j, ok = False, path = []\<rparr>]\<rparr>
            | Inr txt \<Rightarrow>
                (let outp = job_output K (cfg s) j
                 in s\<lparr>workers := rest,
                      posted := posted s @ [\<lparr>ckind = kind j, ok = True, path = outp\<rparr>],
                      files := ofstream_write st (files s) outp txt\<rparr>))
      else s)"

text \<open>The UI thread runs the oldest posted closure.\<close>

definition completion_status :: "completion \<Rightarrow> string" where
  "completion_status c =
     (case ckind c of
        ResolveJob \<Rightarrow> if ok c then ''Resolved -> '' @ path c else ''Resolve failed.''
      | ExportJob \<Rightarrow> if ok c then ''Exported JSON -> '' @ path c else ''Export failed.'')"

definition ui_run :: "presenter \<Rightarrow> presenter" where
  "ui_run s =
     (case posted s of
        [] \<Rightarrow> s
      | c # cs \<Rightarrow>
          s\<lparr>posted := cs, busy := False,
            view := view s @ [SetBusy False, ShowStatus (completion_status c)]\<rparr>)"

text \<open>\<^verbatim>\<open>wire()\<close>: the callbacks the view fires.\<close>

datatype intent =
    Preload
  | Switch string
  | Save
  | Resolve
  | Export
  | Insert int int string
  | Delete int int
  | Filter string

fun fire :: "core \<Rightarrow> presenter \<Rightarrow> intent \<Rightarrow> presenter" where
  "fire K s Preload = preload K s"
| "fire K s (Switch name) = openOrSwitch K s name"
| "fire K s Save = save K s"
| "fire K s Resolve = resolveAsync s"
| "fire K s Export = exportAsync s"
| "fire K s (Insert r a v) = insert_p K s r a v"
| "fire K s (Delete r a) = erase K s r a"
| "fire K s (Filter f) = refreshRows K (s\<lparr>filter_s := f\<rparr>)"

text \<open>The constructor.\<close>

definition presenter_init :: "core \<Rightarrow> fs \<Rightarrow> presenter" where
  "presenter_init K fs0 =
     (let c = loadConfig K fs0;
          w = preloadAll K c fs0 \<lparr>banks = []\<rparr>;
          s = \<lparr>cfg = c, ws = w, current = None, dirty = False, busy = False,
               filter_s = [], view = [], workers = [], posted = [], files = fs0\<rparr>
      in showStatus (''Ready. Loaded '' @ to_string (length (banks w)) @ '' banks.'')
           (pushBanks s))"

text \<open>
  The behaviours of a presenter: the view fires a callback on the UI thread, a worker
  thread runs (with any fate of its stream), or the UI thread runs a posted closure; one
  at a time.
\<close>

inductive reachable :: "core \<Rightarrow> fs \<Rightarrow> presenter \<Rightarrow> bool" for K :: core and fs0 :: fs where
  init: "reachable K fs0 (presenter_init K fs0)"
| ui: "reachable K fs0 s \<Longrightarrow> reachable K fs0 (fire K s i)"
| worker: "reachable K fs0 s \<Longrightarrow> reachable K fs0 (worker_run K s n st)"
| post: "reachable K fs0 s \<Longrightarrow> reachable K fs0 (ui_run s)"


section \<open>The Win32 shell (scripted-gui.cpp)\<close>

text \<open>
  \<^verbatim>\<open>struct App\<close> without its window handles; \<^verbatim>\<open>setStatus\<close> sets the text of the
  status bar.  \<^verbatim>\<open>resolveCurrent\<close> has no handler, and neither has the window procedure
  nor \<^verbatim>\<open>wWinMain\<close>: an exception of the resolver leaves the function (\<open>Inl\<close>).
  \<open>st\<close> is what becomes of its unchecked \<^verbatim>\<open>ofstream\<close>.
\<close>

record app =
  app_cfg :: config
  app_ws :: workspace
  app_current :: "int option"
  app_dirty :: bool
  app_status :: string
  app_files :: fs

definition resolveCurrent :: "core \<Rightarrow> app \<Rightarrow> ofstream \<Rightarrow> string + app" where
  "resolveCurrent K a st =
     (case app_current a of
        None \<Rightarrow> Inr (a\<lparr>app_status := ''No current context''\<rparr>)
      | Some i \<Rightarrow>
          (case resolveBankToText K (app_cfg a) (app_ws a) i of
             Inl e \<Rightarrow> Inl e
           | Inr txt \<Rightarrow>
               (let outp = outResolvedName K (app_cfg a) i
                in Inr (a\<lparr>app_files := ofstream_write st (app_files a) outp txt,
                         app_status := ''Resolved -> '' @ outp\<rparr>))))"

section \<open>Observations used by the properties\<close>

text \<open>The bank with the given id, as \<^verbatim>\<open>ws.banks[id]\<close> would read it.\<close>

definition bank_of :: "workspace \<Rightarrow> int \<Rightarrow> bank" where
  "bank_of w i = fst (at i empty_bank (banks w))"

text \<open>The addresses of a register of a bank; none when the bank has no such register.\<close>

definition addrs_of :: "bank \<Rightarrow> int \<Rightarrow> (int \<times> string) list" where
  "addrs_of b r = (case map_of (regs b) r of None \<Rightarrow> [] | Some as \<Rightarrow> as)"



text \<open>Whether \<^verbatim>\<open>saveContextFile\<close> would succeed on the selected bank, and whether
  \<^verbatim>\<open>openCtx\<close> would succeed on a name, in the state as it is.\<close>

definition save_succeeds :: "core \<Rightarrow> presenter \<Rightarrow> bool" where
  "save_succeeds K s =
     (case current s of
        None \<Rightarrow> False
      | Some i \<Rightarrow>
          fst (saveContextFile K (cfg s) (contextFileName K (cfg s) i) (bank_of (ws s) i)
                 (files s)))"

definition open_succeeds :: "core \<Rightarrow> presenter \<Rightarrow> string \<Rightarrow> bool" where
  "open_succeeds K s name = fst (openCtx K (cfg s) (files s) (ws s) name)"

text \<open>The single-flight invariant: the busy flag is set exactly while one job is in
  flight, as a running worker or as a posted closure, and only with a bank selected.\<close>

definition single_flight_inv :: "presenter \<Rightarrow> bool" where
  "single_flight_inv s =
     (length (workers s) + length (posted s) = (if busy s then 1 else 0) \<and>
      (busy s \<longrightarrow> current s \<noteq> None))"

text \<open>The statuses among the calls on the view.\<close>

fun statuses :: "view_event list \<Rightarrow> string list" where
  "statuses [] = []"
| "statuses (ShowStatus m # es) = m # statuses es"
| "statuses (e # es) = statuses es"

section \<open>A concrete core\<close>

text \<open>
  An instance of the absent core on which the presenter can be run: the configuration of
  the concrete scenario of section 8 of the specification, a root directory without
  bank files, and the codec above.
\<close>

definition demo_cfg :: config where
  "demo_cfg = \<lparr>cfg_prefix = CHR ''x'', base = 16, widthBank = 5, widthReg = 2, widthAddr = 2\<rparr>"

text \<open>Modelled from the spec: \<^verbatim>\<open>open\<close> of section 4.2 (\<^verbatim>\<open>openCtx\<close>, absent) where no
  bank file exists: the argument loses a trailing extension and a leading prefix
  character, the rest is decoded; a known id is a success without effect, an unknown id
  creates an empty bank.  The specification fixes no status text; the three here are
  placeholders.\<close>

definition demo_openCtx :: "config \<Rightarrow> fs \<Rightarrow> workspace \<Rightarrow> string \<Rightarrow> bool \<times> workspace \<times> string" where
  "demo_openCtx c fs w name =
     (let stem = (if length name > 4 \<and> suffix ''.txt'' name
                  then take (length name - 4) name else name);
          token = (if stem \<noteq> [] \<and> hd stem = cfg_prefix c then tl stem else stem)
      in case decode token (nat (base c)) of
           None \<Rightarrow> (False, w, ''bad id'')
         | Some v \<Rightarrow>
             (case map_of (banks w) (int v) of
                Some b \<Rightarrow> (True, w, ''existing'')
              | None \<Rightarrow> (True, w\<lparr>banks := assign (int v) empty_bank (banks w)\<rparr>, ''created'')))"

text \<open>A resolver for banks without cross-references: the values in ascending
  (register, address) order, each followed by a semicolon.\<close>

definition demo_text :: "config \<Rightarrow> workspace \<Rightarrow> int \<Rightarrow> string + string" where
  "demo_text c w i = Inr (concat (map (\<lambda>r. val r @ '';'') (bank_rows (bank_of w i))))"

definition demo_core :: core where
  "demo_core =
     \<lparr>loadConfig = (\<lambda>fs. demo_cfg),
      preloadAll = (\<lambda>c fs w. w),
      openCtx = demo_openCtx,
      parseIntBase = (\<lambda>t b i0. case decode t (nat b) of
                                    None \<Rightarrow> (False, i0) | Some v \<Rightarrow> (True, int v)),
      toBaseN = (\<lambda>v b w. encode (nat v) (nat b) (nat w)),
      contextFileName = (\<lambda>c i. cfg_prefix c # encode (nat i) (nat (base c)) (nat (widthBank c))
                                  @ ''.txt''),
      saveContextFile = (\<lambda>c p b fs. (True, fs(p \<mapsto> title b), [])),
      resolveBankToText = demo_text,
      exportBankToJSON = demo_text,
      outResolvedName = (\<lambda>c i. ''out/'' @ encode (nat i) (nat (base c)) (nat (widthBank c))
                                  @ ''.resolved.txt''),
      outJsonName = (\<lambda>c i. ''out/'' @ encode (nat i) (nat (base c)) (nat (widthBank c))
                              @ ''.json'')\<rparr>"

text \<open>The same core with a resolver that meets a broken reference.\<close>

definition failing_core :: core where
  "failing_core =
     demo_core\<lparr>resolveBankToText := (\<lambda>c w i. Inl ''unresolved reference x00002.01.0a'')\<rparr>"

text \<open>The same core with a disk that cannot be written.\<close>

definition readonly_core :: core where
  "readonly_core = demo_core\<lparr>saveContextFile := (\<lambda>c p b fs. (False, fs, ''Permission denied''))\<rparr>"

text \<open>A presenter on an empty disk after the user opened bank 1.\<close>

definition demo_start :: presenter where
  "demo_start = fire demo_core (presenter_init demo_core Map.empty) (Switch ''x00001'')"


text \<open>The same presenter after one edit: register 1 of bank 1 holds \<open>old\<close> at
  address 10.\<close>

definition demo_edited :: presenter where
  "demo_edited = fire demo_core demo_start (Insert 1 10 ''old'')"

section \<open>The codec round trip\<close>

lemma digit_table: "list_all (\<lambda>d. digit_val (digit_char d) = Some d) [0..<36]"
  by code_simp

lemma digit_val_digit_char: "d < 36 \<Longrightarrow> digit_val (digit_char d) = Some d"
  using digit_table by (simp add: list_all_iff)

lemma decode_from_chars:
  "decode_from b acc xs = Some r \<Longrightarrow> c \<in> set xs \<Longrightarrow> digit_val c \<noteq> None"
  by (induction xs arbitrary: acc) (auto split: option.splits if_splits)

lemma decode_from_append:
  "decode_from b acc (xs @ ys) =
     (case decode_from b acc xs of None \<Rightarrow> None | Some a \<Rightarrow> decode_from b a ys)"
  by (induction xs arbitrary: acc) (auto split: option.splits)

lemma decode_from_zeros:
  "0 < b \<Longrightarrow> decode_from b 0 (replicate k (CHR ''0'')) = Some 0"
  by (induction k) (simp_all add: digit_val_def alphabet_def)

lemma decode_from_digits:
  assumes "2 \<le> b" "b \<le> 36"
  shows "decode_from b 0 (digits b v) = Some v"
  using assms
proof (induction b v rule: digits.induct)
  case (1 b v)
  show ?case
  proof (cases "v < b")
    case True
    with 1(2,3) show ?thesis
      by (simp add: digits.simps [of b v] digit_val_digit_char)
  next
    case False
    with 1(2) have rec: "digits b v = digits b (v div b) @ [digit_char (v mod b)]"
      by (simp add: digits.simps [of b v])
    from False 1 have ih: "decode_from b 0 (digits b (v div b)) = Some (v div b)"
      by simp
    from 1(2,3) have "v mod b < b" and "v mod b < 36"
      by (simp_all add: less_le_trans [OF mod_less_divisor])
    then show ?thesis
      by (simp add: rec decode_from_append ih digit_val_digit_char)
  qed
qed

lemma decode_from_encode:
  assumes "2 \<le> b" "b \<le> 36"
  shows "decode_from b 0 (encode v b w) = Some v"
  using assms
  by (simp add: encode_def Let_def decode_from_append decode_from_zeros decode_from_digits)

lemma space_table:
  "list_all (\<lambda>c. digit_val c = None) [CHR '' '', CHR 0x09, CHR 0x0A, CHR 0x0B, CHR 0x0C, CHR 0x0D]"
  by code_simp

lemma is_space_no_digit: "is_space c \<Longrightarrow> digit_val c = None"
  using space_table unfolding is_space_def list_all_iff by blast

lemma trim_id:
  assumes "xs \<noteq> []" "\<not> is_space (hd xs)" "\<not> is_space (last xs)"
  shows "trim xs = xs"
proof -
  from assms have "dropWhile is_space xs = xs"
    by (cases xs) auto
  moreover from assms have "dropWhile is_space (rev xs) = rev xs"
    by (cases "rev xs") (auto simp: last_rev hd_rev)
  ultimately show ?thesis by (simp add: trim_def)
qed

lemma encode_nonempty: "encode v b w \<noteq> []"
  by (simp add: encode_def Let_def digits.simps [of b v])

lemma trim_encode:
  assumes "2 \<le> b" "b \<le> 36"
  shows "trim (encode v b w) = encode v b w"
proof (rule trim_id)
  show "encode v b w \<noteq> []" by (rule encode_nonempty)
  have ok: "digit_val c \<noteq> None" if "c \<in> set (encode v b w)" for c
    using decode_from_encode [OF assms] that by (rule decode_from_chars)
  have "hd (encode v b w) \<in> set (encode v b w)" "last (encode v b w) \<in> set (encode v b w)"
    using encode_nonempty by simp_all
  then show "\<not> is_space (hd (encode v b w))" "\<not> is_space (last (encode v b w))"
    using ok is_space_no_digit by blast+
qed

text \<open>
  Claim C9.  For every base from 2 to 36, every width that is at least the number of
  natural digits of the value, and every non-negative value \<open>v\<close> below \<open>b ^ w\<close>
  (base \<open>b\<close>, width \<open>w\<close>),
  decoding the encoding of \<open>v\<close> returns \<open>v\<close>.
\<close>

theorem codec_round_trip:
  assumes "2 \<le> b" and "b \<le> 36"
    and "length (digits b v) \<le> w" and "v < b ^ w"
  shows "decode (encode v b w) b = Some v"
  using assms(1,2)
  by (simp add: decode_def trim_encode encode_nonempty decode_from_encode)

theorem codec_round_trip_witness:
  "(2::nat) \<le> 16 \<and> (16::nat) \<le> 36 \<and> length (digits 16 10) \<le> 2 \<and> (10::nat) < 16 ^ 2
   \<and> encode 10 16 2 = ''0a'' \<and> decode ''0a'' 16 = Some 10"
proof -
  have d: "digits 16 10 = ''a''"
    by (simp add: digits.simps [of 16 10] digit_char_def alphabet_def)
  have e: "encode 10 16 2 = ''0a''"
    by (simp add: encode_def d)
  have h: "length (digits 16 10) \<le> 2" "(10::nat) < 16 ^ 2"
    by (simp_all add: d)
  from codec_round_trip [of 16 10 2] h e show ?thesis
    by simp
qed

section \<open>Facts about the container model\<close>

lemma map_of_assign_same: "map_of (assign k v m) k = Some v"
  by (induction k v m rule: assign.induct) auto

lemma map_of_assign_other: "k' \<noteq> k \<Longrightarrow> map_of (assign k v m) k' = map_of m k'"
  by (induction k v m rule: assign.induct) auto

lemma keys_assign: "fst ` set (assign k v m) = insert k (fst ` set m)"
  by (induction k v m rule: assign.induct) auto

lemma assign_twice: "assign k v (assign k u m) = assign k v m"
  by (induction k u m rule: assign.induct) auto

lemma erase_key_assign: "map_of m k = None \<Longrightarrow> erase_key k (assign k v m) = m"
  by (induction k v m rule: assign.induct) (auto split: if_splits)

lemma erase_key_absent: "map_of m k = None \<Longrightarrow> erase_key k m = m"
  by (induction k m rule: erase_key.induct) (auto split: if_splits)

lemma set_erase_key: "set (erase_key k m) \<subseteq> set m"
  by (induction k m rule: erase_key.induct) auto

lemma wf_map_assign: "wf_map m \<Longrightarrow> wf_map (assign k v m)"
proof (induction k v m rule: assign.induct)
  case (1 k v)
  show ?case by (simp add: wf_map_def)
next
  case (2 k v k' v' m)
  from 2(2) have tl: "wf_map m" and hd: "\<forall>x \<in> fst ` set m. k' < x"
    by (auto simp: wf_map_def)
  show ?case
  proof (cases "k < k'")
    case True
    with 2(2) hd show ?thesis by (auto simp: wf_map_def)
  next
    case False
    show ?thesis
    proof (cases "k = k'")
      case True
      with 2(2) show ?thesis by (simp add: wf_map_def)
    next
      case ne: False
      with False have "k' < k" by simp
      moreover from False ne tl have "wf_map (assign k v m)" by (rule 2(1))
      ultimately show ?thesis
        using False ne hd keys_assign [of k v m] by (auto simp: wf_map_def)
    qed
  qed
qed

lemma wf_map_erase_key: "wf_map m \<Longrightarrow> wf_map (erase_key k m)"
proof (induction k m rule: erase_key.induct)
  case (1 k)
  show ?case by (simp add: wf_map_def)
next
  case (2 k k' v' m)
  then show ?case
    using set_erase_key [of k m] by (auto simp: wf_map_def)
qed

lemma map_of_erase_key:
  "wf_map m \<Longrightarrow> map_of (erase_key k m) = (map_of m)(k := None)"
proof (induction k m rule: erase_key.induct)
  case (1 k)
  show ?case by simp
next
  case (2 k k' v' m)
  from 2(2) have tl: "wf_map m" and hd: "\<forall>x \<in> fst ` set m. k' < x"
    by (auto simp: wf_map_def)
  show ?case
  proof (cases "k = k'")
    case True
    with hd have "map_of m k = None"
      by (auto simp: map_of_eq_None_iff)
    with True show ?thesis by (auto simp: fun_eq_iff)
  next
    case False
    with 2(1) tl show ?thesis by (auto simp: fun_eq_iff)
  qed
qed

lemma map_of_erase_key_other: "k' \<noteq> k \<Longrightarrow> map_of (erase_key k m) k' = map_of m k'"
  by (induction k m rule: erase_key.induct) auto

lemma filter_absent_key: "map_of m k = None \<Longrightarrow> filter (\<lambda>e. fst e \<noteq> k) m = m"
  by (induction m) (auto split: if_splits)

lemma erase_key_filter: "wf_map m \<Longrightarrow> erase_key k m = filter (\<lambda>e. fst e \<noteq> k) m"
proof (induction k m rule: erase_key.induct)
  case (1 k)
  show ?case by simp
next
  case (2 k k' v' m)
  from 2(2) have tl: "wf_map m" and hd: "\<forall>x \<in> fst ` set m. k' < x"
    by (auto simp: wf_map_def)
  show ?case
  proof (cases "k = k'")
    case True
    with hd have "map_of m k = None"
      by (auto simp: map_of_eq_None_iff)
    with True show ?thesis by (simp add: filter_absent_key)
  next
    case False
    with 2(1) tl show ?thesis by simp
  qed
qed

lemma map_of_assign: "map_of (assign k v m) = (map_of m)(k \<mapsto> v)"
  by (simp add: fun_eq_iff map_of_assign_same map_of_assign_other)

lemma fst_at_assign: "fst (at k d (assign k v m)) = v"
  by (simp add: at_def map_of_assign_same)

lemma snd_at_assign: "snd (at k d (assign k v m)) = assign k v m"
  by (simp add: at_def map_of_assign_same)

lemma at_present: "map_of m k = Some v \<Longrightarrow> at k d m = (v, m)"
  by (simp add: at_def)

lemma at_again: "at k d (snd (at k d m)) = at k d m"
  by (simp add: at_def map_of_assign_same split: option.splits)

lemma map_of_snd_at: "map_of (snd (at k d m)) k = Some (fst (at k d m))"
  by (simp add: at_def map_of_assign_same split: option.splits)

section \<open>What each operation leaves alone\<close>

lemma showStatus_simps [simp]:
  "cfg (showStatus m s) = cfg s" "ws (showStatus m s) = ws s"
  "current (showStatus m s) = current s" "dirty (showStatus m s) = dirty s"
  "busy (showStatus m s) = busy s" "filter_s (showStatus m s) = filter_s s"
  "view (showStatus m s) = view s @ [ShowStatus m]"
  "workers (showStatus m s) = workers s" "posted (showStatus m s) = posted s"
  "files (showStatus m s) = files s"
  by (simp_all add: showStatus_def)

lemma pushBanks_simps [simp]:
  "cfg (pushBanks s) = cfg s" "ws (pushBanks s) = ws s"
  "current (pushBanks s) = current s" "dirty (pushBanks s) = dirty s"
  "busy (pushBanks s) = busy s" "filter_s (pushBanks s) = filter_s s"
  "workers (pushBanks s) = workers s" "posted (pushBanks s) = posted s"
  "files (pushBanks s) = files s"
  by (simp_all add: pushBanks_def)

lemma refreshRows_simps [simp]:
  "cfg (refreshRows K s) = cfg s"
  "current (refreshRows K s) = current s" "dirty (refreshRows K s) = dirty s"
  "busy (refreshRows K s) = busy s" "filter_s (refreshRows K s) = filter_s s"
  "workers (refreshRows K s) = workers s" "posted (refreshRows K s) = posted s"
  "files (refreshRows K s) = files s"
  by (simp_all add: refreshRows_def Let_def split: option.splits prod.splits)

lemma ws_refreshRows:
  "ws (refreshRows K s) =
     (case current s of None \<Rightarrow> ws s
      | Some i \<Rightarrow> (ws s)\<lparr>banks := snd (at i empty_bank (banks (ws s)))\<rparr>)"
  by (simp add: refreshRows_def Let_def split: option.splits prod.splits)


lemma bank_of_touch [simp]:
  "bank_of (w\<lparr>banks := snd (at i empty_bank (banks w))\<rparr>) i = bank_of w i"
  by (simp add: bank_of_def at_again)

lemma bank_of_assign [simp]: "bank_of (w\<lparr>banks := assign i b m\<rparr>) i = b"
  by (simp add: bank_of_def fst_at_assign)

lemma addrs_of_at: "addrs_of b r = fst (at r [] (regs b))"
  by (simp add: addrs_of_def at_def split: option.splits)

lemma current_insert_p [simp]: "current (insert_p K s r a v) = current s"
  by (simp add: insert_p_def Let_def case_prod_beta split: option.splits)

lemma current_erase [simp]: "current (erase K s r a) = current s"
  by (simp add: erase_def Let_def case_prod_beta split: option.splits)

lemma ws_insert_p:
  assumes "current s = Some i"
  shows "ws (insert_p K s r a v) =
     (ws s)\<lparr>banks :=
        assign i ((bank_of (ws s) i)\<lparr>regs :=
                    assign r (assign a v (addrs_of (bank_of (ws s) i) r))
                      (snd (at r [] (regs (bank_of (ws s) i))))\<rparr>)
          (snd (at i empty_bank (banks (ws s))))\<rparr>"
  using assms
  by (simp add: insert_p_def Let_def case_prod_beta ws_refreshRows snd_at_assign
      bank_of_def addrs_of_at)

lemma bank_after_insert_p:
  assumes "current s = Some i"
  shows "bank_of (ws (insert_p K s r a v)) i =
     (bank_of (ws s) i)\<lparr>regs :=
        assign r (assign a v (addrs_of (bank_of (ws s) i) r))
          (snd (at r [] (regs (bank_of (ws s) i))))\<rparr>"
  by (simp add: ws_insert_p [OF assms])

lemma dirty_insert_p: "current s = Some i \<Longrightarrow> dirty (insert_p K s r a v)"
  by (simp add: insert_p_def Let_def case_prod_beta)

text \<open>What \<^verbatim>\<open>erase\<close> does to a selected bank, case by case.\<close>

lemma erase_absent:
  assumes "current s = Some i"
    and "map_of (addrs_of (bank_of (ws s) i) r) a = None"
  shows "erase K s r a = s\<lparr>ws := (ws s)\<lparr>banks := snd (at i empty_bank (banks (ws s)))\<rparr>\<rparr>"
  using assms
  by (simp add: erase_def Let_def case_prod_beta bank_of_def addrs_of_def
      split: option.splits)

lemma bank_after_erase_present:
  assumes "current s = Some i"
    and "map_of (regs (bank_of (ws s) i)) r = Some as"
    and "map_of as a \<noteq> None"
  shows "bank_of (ws (erase K s r a)) i =
           (bank_of (ws s) i)\<lparr>regs := assign r (erase_key a as) (regs (bank_of (ws s) i))\<rparr>"
    and "dirty (erase K s r a)"
  using assms
  by (simp_all add: erase_def Let_def case_prod_beta bank_of_def ws_refreshRows
      snd_at_assign fst_at_assign)

section \<open>Insert and delete\<close>

lemma bank_after_insert_erase:
  assumes "current s = Some i"
  shows "bank_of (ws (erase K (insert_p K s r a v) r a)) i =
     (bank_of (ws s) i)\<lparr>regs :=
        assign r (erase_key a (assign a v (addrs_of (bank_of (ws s) i) r)))
          (snd (at r [] (regs (bank_of (ws s) i))))\<rparr>"
    and "dirty (erase K (insert_p K s r a v) r a)"
proof -
  let ?s1 = "insert_p K s r a v"
  let ?as = "assign a v (addrs_of (bank_of (ws s) i) r)"
  have cur: "current ?s1 = Some i" using assms by simp
  have b1: "bank_of (ws ?s1) i =
      (bank_of (ws s) i)\<lparr>regs := assign r ?as (snd (at r [] (regs (bank_of (ws s) i))))\<rparr>"
    by (rule bank_after_insert_p [OF assms])
  have r1: "map_of (regs (bank_of (ws ?s1) i)) r = Some ?as"
    by (simp add: b1 map_of_assign_same)
  have a1: "map_of ?as a \<noteq> None"
    by (simp add: map_of_assign_same)
  show "bank_of (ws (erase K ?s1 r a)) i =
     (bank_of (ws s) i)\<lparr>regs :=
        assign r (erase_key a ?as) (snd (at r [] (regs (bank_of (ws s) i))))\<rparr>"
    by (simp add: bank_after_erase_present(1) [OF cur r1 a1] b1 assign_twice)
  show "dirty (erase K ?s1 r a)"
    by (rule bank_after_erase_present(2) [OF cur r1 a1])
qed

text \<open>
  Claim C5, as stated, at a concrete input: bank 1 is selected and its register 1 holds
  \<open>old\<close> at address 10.  Inserting \<open>new\<close> at (1, 10) and then deleting (1, 10) leaves
  the register without addresses, not with its contents before the insert.
\<close>

theorem insert_erase_counterexample:
  "current demo_edited = Some 1 \<and>
   addrs_of (bank_of (ws demo_edited) 1) 1 = [(10, ''old'')] \<and>
   addrs_of (bank_of (ws (erase demo_core (insert_p demo_core demo_edited 1 10 ''new'') 1 10)) 1) 1
     = []"
  by code_simp

text \<open>
  Claim C5, amended.  For a selected bank and every (reg, addr, value): \<open>dirty\<close> is true
  after the insert and still true after the delete; when the pair (reg, addr) is absent
  before the insert, insert followed by delete restores the addresses of the register to
  what they were before the insert; and in every case the pair is absent afterwards
  (for a register whose addresses are in key order, as those of a \<^verbatim>\<open>std::map\<close> are).
\<close>

theorem insert_then_erase:
  assumes "current s = Some i"
  shows "dirty (insert_p K s r a v) \<and>
    dirty (erase K (insert_p K s r a v) r a) \<and>
    (map_of (addrs_of (bank_of (ws s) i) r) a = None \<longrightarrow>
       addrs_of (bank_of (ws (erase K (insert_p K s r a v) r a)) i) r
         = addrs_of (bank_of (ws s) i) r) \<and>
    (wf_map (addrs_of (bank_of (ws s) i) r) \<longrightarrow>
       map_of (addrs_of (bank_of (ws (erase K (insert_p K s r a v) r a)) i) r) a = None)"
proof -
  let ?as = "addrs_of (bank_of (ws s) i) r"
  have after: "addrs_of (bank_of (ws (erase K (insert_p K s r a v) r a)) i) r
      = erase_key a (assign a v ?as)"
    by (simp add: bank_after_insert_erase(1) [OF assms] addrs_of_def map_of_assign_same)
  have "wf_map ?as \<Longrightarrow> map_of (erase_key a (assign a v ?as)) a = None"
    by (simp add: map_of_erase_key wf_map_assign)
  then show ?thesis
    using dirty_insert_p [OF assms] bank_after_insert_erase(2) [OF assms]
    by (simp add: after erase_key_assign)
qed

theorem insert_then_erase_witness:
  "current demo_edited = Some 1 \<and>
   map_of (addrs_of (bank_of (ws demo_edited) 1) 1) 11 = None \<and>
   wf_map (addrs_of (bank_of (ws demo_edited) 1) 1) \<and>
   dirty (erase demo_core (insert_p demo_core demo_edited 1 11 ''x'') 1 11) \<and>
   addrs_of (bank_of (ws (erase demo_core (insert_p demo_core demo_edited 1 11 ''x'') 1 11)) 1) 1
     = [(10, ''old'')]"
proof -
  have c: "current demo_edited = Some 1" by code_simp
  have a: "addrs_of (bank_of (ws demo_edited) 1) 1 = [(10, ''old'')]" by code_simp
  from insert_then_erase [OF c, of demo_core 1 11 "''x''"] c a show ?thesis
    by (simp add: wf_map_def)
qed

text \<open>
  Claim C8.  For a selected bank, deleting a (reg, addr) pair that the bank does not hold
  changes nothing: the contents of the bank and \<open>dirty\<close> stay as they are and the view
  receives no call at all, so no status either.  (The one trace is that of
  \<^verbatim>\<open>ws.banks[*current]\<close>, which would enter the selected bank into the workspace, empty,
  if it were not there; for a bank that is there the whole state is unchanged.)
\<close>

theorem erase_absent_noop:
  assumes "current s = Some i"
    and "map_of (addrs_of (bank_of (ws s) i) r) a = None"
  shows "bank_of (ws (erase K s r a)) i = bank_of (ws s) i \<and>
    dirty (erase K s r a) = dirty s \<and>
    view (erase K s r a) = view s \<and>
    (map_of (banks (ws s)) i \<noteq> None \<longrightarrow> erase K s r a = s)"
proof -
  have "map_of (banks (ws s)) i \<noteq> None \<Longrightarrow> snd (at i empty_bank (banks (ws s))) = banks (ws s)"
    by (auto simp: at_def)
  then show ?thesis
    by (auto simp add: erase_absent [OF assms])
qed

theorem erase_absent_noop_witness:
  "current demo_edited = Some 1 \<and>
   map_of (addrs_of (bank_of (ws demo_edited) 1) 1) 11 = None \<and>
   map_of (banks (ws demo_edited)) 1 \<noteq> None \<and>
   erase demo_core demo_edited 1 11 = demo_edited \<and>
   erase demo_core demo_edited 2 10 = demo_edited"
proof -
  have c: "current demo_edited = Some 1" by code_simp
  have a: "map_of (addrs_of (bank_of (ws demo_edited) 1) 1) 11 = None" by code_simp
  have a': "map_of (addrs_of (bank_of (ws demo_edited) 1) 2) 10 = None" by code_simp
  have b: "map_of (banks (ws demo_edited)) 1 \<noteq> None" by code_simp
  from erase_absent_noop [OF c a, of demo_core] erase_absent_noop [OF c a', of demo_core] c a b
  show ?thesis by simp
qed

lemma addrs_after_erase:
  assumes "current s = Some i"
  shows "addrs_of (bank_of (ws (erase K s r a)) i) r
    = erase_key a (addrs_of (bank_of (ws s) i) r)"
proof (cases "map_of (addrs_of (bank_of (ws s) i) r) a")
  case None
  with assms show ?thesis by (simp add: erase_absent erase_key_absent)
next
  case (Some x)
  then obtain as where as: "map_of (regs (bank_of (ws s) i)) r = Some as" "map_of as a \<noteq> None"
    by (auto simp: addrs_of_def split: option.splits)
  show ?thesis
    by (simp add: bank_after_erase_present(1) [OF assms as] addrs_of_def map_of_assign_same as(1))
qed

lemma other_regs_after_erase:
  assumes "current s = Some i" and "r' \<noteq> r"
  shows "map_of (regs (bank_of (ws (erase K s r a)) i)) r' = map_of (regs (bank_of (ws s) i)) r'"
proof (cases "map_of (addrs_of (bank_of (ws s) i) r) a")
  case None
  with assms show ?thesis by (simp add: erase_absent)
next
  case (Some x)
  then obtain as where as: "map_of (regs (bank_of (ws s) i)) r = Some as" "map_of as a \<noteq> None"
    by (auto simp: addrs_of_def split: option.splits)
  show ?thesis
    by (simp add: bank_after_erase_present(1) [OF assms(1) as] map_of_assign_other assms(2))
qed

lemma keys_after_erase:
  assumes "current s = Some i"
  shows "fst ` set (regs (bank_of (ws (erase K s r a)) i)) = fst ` set (regs (bank_of (ws s) i))"
proof (cases "map_of (addrs_of (bank_of (ws s) i) r) a")
  case None
  with assms show ?thesis by (simp add: erase_absent)
next
  case (Some x)
  then obtain as where as: "map_of (regs (bank_of (ws s) i)) r = Some as" "map_of as a \<noteq> None"
    by (auto simp: addrs_of_def split: option.splits)
  from as(1) have "r \<in> fst ` set (regs (bank_of (ws s) i))"
    by (metis map_of_eq_None_iff option.distinct(1))
  then show ?thesis
    by (auto simp add: bank_after_erase_present(1) [OF assms as] keys_assign)
qed

lemma last_address_erased:
  assumes "current s = Some i" and "map_of (regs (bank_of (ws s) i)) r = Some [(a, v)]"
  shows "map_of (regs (bank_of (ws (erase K s r a)) i)) r = Some []"
proof -
  have "map_of [(a, v)] a \<noteq> None" by simp
  from bank_after_erase_present(1) [OF assms this] show ?thesis
    by (simp add: map_of_assign_same)
qed

text \<open>
  Claim C10.  For a selected bank, insert creates the register when the bank has none
  with that id.  Delete removes the one address entry and nothing else: every other
  register of the bank is as before, every other address of the register keeps its value
  (the addresses left are exactly the entries with another address, in their order, for a
  register in key order as those of a \<^verbatim>\<open>std::map\<close> are), and the register ids of the
  bank are the same before and after, so a register is never removed.  A register whose
  only address is deleted is still there, without addresses.  So a register that was
  absent is there, without addresses, after an insert into it and the delete of that
  address, and the register ids of the bank have grown by it.
\<close>

theorem register_outlives_its_addresses:
  assumes "current s = Some i"
  shows "map_of (regs (bank_of (ws (insert_p K s r a v)) i)) r \<noteq> None \<and>
    fst ` set (regs (bank_of (ws (erase K s r a)) i)) = fst ` set (regs (bank_of (ws s) i)) \<and>
    (\<forall>r'. r' \<noteq> r \<longrightarrow>
       map_of (regs (bank_of (ws (erase K s r a)) i)) r' = map_of (regs (bank_of (ws s) i)) r') \<and>
    (\<forall>a'. a' \<noteq> a \<longrightarrow>
       map_of (addrs_of (bank_of (ws (erase K s r a)) i) r) a'
         = map_of (addrs_of (bank_of (ws s) i) r) a') \<and>
    (wf_map (addrs_of (bank_of (ws s) i) r) \<longrightarrow>
       addrs_of (bank_of (ws (erase K s r a)) i) r
         = filter (\<lambda>e. fst e \<noteq> a) (addrs_of (bank_of (ws s) i) r)) \<and>
    (map_of (regs (bank_of (ws s) i)) r \<noteq> None \<longrightarrow>
       map_of (regs (bank_of (ws (erase K s r a)) i)) r \<noteq> None) \<and>
    (\<forall>u. map_of (regs (bank_of (ws s) i)) r = Some [(a, u)] \<longrightarrow>
       map_of (regs (bank_of (ws (erase K s r a)) i)) r = Some []) \<and>
    (map_of (regs (bank_of (ws s) i)) r = None \<longrightarrow>
       map_of (regs (bank_of (ws (erase K (insert_p K s r a v) r a)) i)) r = Some [] \<and>
       fst ` set (regs (bank_of (ws (erase K (insert_p K s r a v) r a)) i))
         = insert r (fst ` set (regs (bank_of (ws s) i))))"
proof -
  let ?b = "bank_of (ws s) i"
  let ?b' = "bank_of (ws (erase K s r a)) i"
  have ins: "map_of (regs (bank_of (ws (insert_p K s r a v)) i)) r \<noteq> None"
    by (simp add: bank_after_insert_p [OF assms] map_of_assign_same)
  have keys: "fst ` set (regs ?b') = fst ` set (regs ?b)"
    by (rule keys_after_erase [OF assms])
  have others: "\<forall>r'. r' \<noteq> r \<longrightarrow> map_of (regs ?b') r' = map_of (regs ?b) r'"
    by (simp add: other_regs_after_erase [OF assms])
  have kept: "\<forall>a'. a' \<noteq> a \<longrightarrow> map_of (addrs_of ?b' r) a' = map_of (addrs_of ?b r) a'"
    by (simp add: addrs_after_erase [OF assms] map_of_erase_key_other)
  have exact: "wf_map (addrs_of ?b r) \<longrightarrow>
      addrs_of ?b' r = filter (\<lambda>e. fst e \<noteq> a) (addrs_of ?b r)"
    by (simp add: addrs_after_erase [OF assms] erase_key_filter)
  have stays: "map_of (regs ?b) r \<noteq> None \<longrightarrow> map_of (regs ?b') r \<noteq> None"
    using keys by (metis map_of_eq_None_iff)
  have last: "\<forall>u. map_of (regs ?b) r = Some [(a, u)] \<longrightarrow> map_of (regs ?b') r = Some []"
    using last_address_erased [OF assms] by blast
  have both: "map_of (regs ?b) r = None \<Longrightarrow>
      regs (bank_of (ws (erase K (insert_p K s r a v) r a)) i) = assign r [] (regs ?b)"
    by (simp add: bank_after_insert_erase(1) [OF assms] addrs_of_def at_def assign_twice)
  have scen: "map_of (regs ?b) r = None \<longrightarrow>
       map_of (regs (bank_of (ws (erase K (insert_p K s r a v) r a)) i)) r = Some [] \<and>
       fst ` set (regs (bank_of (ws (erase K (insert_p K s r a v) r a)) i))
         = insert r (fst ` set (regs ?b))"
    using both by (simp add: map_of_assign_same keys_assign)
  from ins keys others kept exact stays last scen show ?thesis
    by (intro conjI)
qed

theorem register_outlives_its_addresses_witness:
  "current demo_edited = Some 1 \<and>
   regs (bank_of (ws demo_edited) 1) = [(1, [(10, ''old'')])] \<and>
   map_of (regs (bank_of (ws (erase demo_core demo_edited 1 10)) 1)) 1 = Some [] \<and>
   map_of (regs (bank_of (ws (erase demo_core (insert_p demo_core demo_edited 7 3 ''x'') 7 3)) 1)) 7
     = Some [] \<and>
   current (insert_p demo_core demo_edited 1 11 ''x'') = Some 1 \<and>
   addrs_of (bank_of (ws (insert_p demo_core demo_edited 1 11 ''x'')) 1) 1
     = [(10, ''old''), (11, ''x'')] \<and>
   addrs_of (bank_of (ws (erase demo_core (insert_p demo_core demo_edited 1 11 ''x'') 1 11)) 1) 1
     = [(10, ''old'')]"
proof -
  have c: "current demo_edited = Some 1" by code_simp
  have r: "regs (bank_of (ws demo_edited) 1) = [(1, [(10, ''old'')])]" by code_simp
  have c2: "current (insert_p demo_core demo_edited 1 11 ''x'') = Some 1" by code_simp
  have a2: "addrs_of (bank_of (ws (insert_p demo_core demo_edited 1 11 ''x'')) 1) 1
      = [(10, ''old''), (11, ''x'')]"
    by code_simp
  note one = register_outlives_its_addresses [OF c, of demo_core 1 10 "''x''"]
  note new = register_outlives_its_addresses [OF c, of demo_core 7 3 "''x''"]
  note two = register_outlives_its_addresses [OF c2, of demo_core 1 11 "''x''"]
  have last: "map_of (regs (bank_of (ws (erase demo_core demo_edited 1 10)) 1)) 1 = Some []"
    using one by (simp add: r)
  have fresh: "map_of (regs (bank_of (ws (erase demo_core (insert_p demo_core demo_edited 7 3 ''x'')
      7 3)) 1)) 7 = Some []"
    using new by (simp add: r)
  have "wf_map (addrs_of (bank_of (ws (insert_p demo_core demo_edited 1 11 ''x'')) 1) 1)"
    by (simp add: a2 wf_map_def)
  with two have kept: "addrs_of (bank_of (ws (erase demo_core
      (insert_p demo_core demo_edited 1 11 ''x'') 1 11)) 1) 1 = [(10, ''old'')]"
    by (simp add: a2)
  show ?thesis
    by (intro conjI) (rule c r last fresh c2 a2 kept)+
qed

text \<open>
  Claim C6.  When no bank is selected, each of insert, delete, save, resolve and export
  is rejected on the spot: the view receives the status \<open>No current context\<close> and
  nothing else changes; the workspace, the session state, the files and the worker
  threads are as before, so no thread was started.
\<close>

theorem no_current_context:
  assumes "current s = None"
  shows "insert_p K s r a v = s\<lparr>view := view s @ [ShowStatus ''No current context'']\<rparr> \<and>
    erase K s r a = s\<lparr>view := view s @ [ShowStatus ''No current context'']\<rparr> \<and>
    save K s = s\<lparr>view := view s @ [ShowStatus ''No current context'']\<rparr> \<and>
    resolveAsync s = s\<lparr>view := view s @ [ShowStatus ''No current context'']\<rparr> \<and>
    exportAsync s = s\<lparr>view := view s @ [ShowStatus ''No current context'']\<rparr>"
  using assms
  by (simp add: insert_p_def erase_def save_def resolveAsync_def exportAsync_def
      dispatch_def showStatus_def)

theorem no_current_context_witness:
  "current (presenter_init demo_core Map.empty) = None \<and>
   workers (resolveAsync (presenter_init demo_core Map.empty)) = [] \<and>
   ws (insert_p demo_core (presenter_init demo_core Map.empty) 1 10 ''x'') = \<lparr>banks = []\<rparr> \<and>
   statuses (view (resolveAsync (presenter_init demo_core Map.empty)))
     = [''Ready. Loaded 0 banks.'', ''No current context'']"
proof -
  have c: "current (presenter_init demo_core Map.empty) = None" by code_simp
  have w: "workers (presenter_init demo_core Map.empty) = []" by code_simp
  have b: "ws (presenter_init demo_core Map.empty) = \<lparr>banks = []\<rparr>" by code_simp
  have v: "statuses (view (presenter_init demo_core Map.empty)) = [''Ready. Loaded 0 banks.'']"
    by code_simp
  have st: "statuses (xs @ [ShowStatus m]) = statuses xs @ [m]" for xs m
    by (induction xs rule: statuses.induct) simp_all
  from no_current_context [OF c, of demo_core 1 10 "''x''"] c w b v show ?thesis
    by (simp add: st)
qed

section \<open>The row filter\<close>









section \<open>The dirty flag\<close>

lemma dirty_preload [simp]: "dirty (preload K s) = dirty s"
  by (simp add: preload_def Let_def)

lemma dirty_dispatch [simp]: "dirty (dispatch k s) = dirty s"
  by (simp add: dispatch_def split: option.splits)

lemma dirty_erase: "dirty s \<Longrightarrow> dirty (erase K s r a)"
  by (simp add: erase_def Let_def case_prod_beta split: option.splits)

lemma dirty_insert_p_mono: "dirty s \<Longrightarrow> dirty (insert_p K s r a v)"
  by (simp add: insert_p_def Let_def case_prod_beta split: option.splits)

lemma dirty_save: "dirty (save K s) = (dirty s \<and> \<not> save_succeeds K s)"
  by (simp add: save_def save_succeeds_def Let_def case_prod_beta bank_of_def
      split: option.splits)

lemma dirty_openOrSwitch:
  "dirty (openOrSwitch K s name) = (dirty s \<and> \<not> open_succeeds K s name)"
  by (simp add: openOrSwitch_def open_succeeds_def Let_def case_prod_beta)

lemma dirty_worker_run [simp]: "dirty (worker_run K s n st) = dirty s"
  by (simp add: worker_run_def Let_def split: sum.splits)

lemma dirty_ui_run [simp]: "dirty (ui_run s) = dirty s"
  by (simp add: ui_run_def split: list.splits)

text \<open>
  Claim C4, as stated, at a concrete input: bank 1 is selected and has an unsaved edit.
  Switching to bank 2, or to bank 1 again, succeeds and clears \<open>dirty\<close>.
\<close>

theorem switch_clears_dirty_counterexample:
  "current demo_edited = Some 1 \<and> dirty demo_edited \<and>
   current (openOrSwitch demo_core demo_edited ''x00002'') = Some 2 \<and>
   \<not> dirty (openOrSwitch demo_core demo_edited ''x00002'') \<and>
   \<not> dirty (openOrSwitch demo_core demo_edited ''x00001'')"
  by code_simp

text \<open>
  Claim C4, amended.  The dirty flag is cleared only by a successful save of the selected
  bank and by a successful \<^verbatim>\<open>openOrSwitch\<close>, and each of the two does clear it; no other
  callback of the view, no worker thread and no posted closure clears it.
\<close>

theorem dirty_cleared_only_by_save_or_switch:
  "(dirty s \<and> \<not> dirty (fire K s it) \<longrightarrow>
      (it = Save \<and> save_succeeds K s) \<or> (\<exists>name. it = Switch name \<and> open_succeeds K s name)) \<and>
   (save_succeeds K s \<longrightarrow> \<not> dirty (fire K s Save)) \<and>
   (open_succeeds K s name \<longrightarrow> \<not> dirty (fire K s (Switch name))) \<and>
   dirty (worker_run K s n st) = dirty s \<and>
   dirty (ui_run s) = dirty s"
proof -
  have "(it = Save \<and> save_succeeds K s) \<or> (\<exists>name. it = Switch name \<and> open_succeeds K s name)"
    if "dirty s" "\<not> dirty (fire K s it)"
    using that
    by (cases it)
      (simp_all add: dirty_save dirty_openOrSwitch dirty_erase dirty_insert_p_mono
        resolveAsync_def exportAsync_def)
  then show ?thesis
    by (auto simp add: dirty_save dirty_openOrSwitch)
qed

theorem dirty_cleared_only_by_save_or_switch_witness:
  "dirty demo_edited \<and> save_succeeds demo_core demo_edited \<and>
   \<not> dirty (fire demo_core demo_edited Save) \<and>
   \<not> save_succeeds readonly_core demo_edited \<and>
   dirty (fire readonly_core demo_edited Save) \<and>
   dirty (fire demo_core demo_edited (Filter ''0a'')) \<and>
   dirty (fire demo_core demo_edited (Switch ''x?''))"
proof -
  have d: "dirty demo_edited" by code_simp
  have s: "save_succeeds demo_core demo_edited" by code_simp
  have r: "\<not> save_succeeds readonly_core demo_edited" by code_simp
  have o: "\<not> open_succeeds demo_core demo_edited ''x?''" by code_simp
  from dirty_cleared_only_by_save_or_switch [of demo_edited demo_core Save]
    dirty_cleared_only_by_save_or_switch [of demo_edited readonly_core Save]
    dirty_cleared_only_by_save_or_switch [of demo_edited demo_core "Filter ''0a''"]
    dirty_cleared_only_by_save_or_switch [of demo_edited demo_core "Switch ''x?''"]
    d s r o
  show ?thesis by auto
qed

section \<open>Background jobs\<close>

lemma preload_frame [simp]:
  "workers (preload K s) = workers s" "posted (preload K s) = posted s"
  "busy (preload K s) = busy s" "current (preload K s) = current s"
  "cfg (preload K s) = cfg s"
  by (simp_all add: preload_def Let_def)

lemma openOrSwitch_frame [simp]:
  "workers (openOrSwitch K s name) = workers s" "posted (openOrSwitch K s name) = posted s"
  "busy (openOrSwitch K s name) = busy s" "cfg (openOrSwitch K s name) = cfg s"
  by (simp_all add: openOrSwitch_def Let_def case_prod_beta)

lemma current_openOrSwitch:
  "current s \<noteq> None \<Longrightarrow> current (openOrSwitch K s name) \<noteq> None"
  by (simp add: openOrSwitch_def Let_def case_prod_beta)

lemma save_frame [simp]:
  "workers (save K s) = workers s" "posted (save K s) = posted s"
  "busy (save K s) = busy s" "current (save K s) = current s" "cfg (save K s) = cfg s"
  by (simp_all add: save_def Let_def case_prod_beta split: option.splits)

lemma insert_p_frame [simp]:
  "workers (insert_p K s r a v) = workers s" "posted (insert_p K s r a v) = posted s"
  "busy (insert_p K s r a v) = busy s" "cfg (insert_p K s r a v) = cfg s"
  by (simp_all add: insert_p_def Let_def case_prod_beta split: option.splits)

lemma erase_frame [simp]:
  "workers (erase K s r a) = workers s" "posted (erase K s r a) = posted s"
  "busy (erase K s r a) = busy s" "cfg (erase K s r a) = cfg s"
  by (simp_all add: erase_def Let_def case_prod_beta split: option.splits)

lemma dispatch_busy:
  "busy s \<Longrightarrow> current s \<noteq> None \<Longrightarrow> dispatch k s = s\<lparr>view := view s @ [ShowStatus ''Busy...'']\<rparr>"
  by (auto simp: dispatch_def showStatus_def)

lemma dispatch_idle:
  "\<not> busy s \<Longrightarrow> current s = Some i \<Longrightarrow>
   dispatch k s = s\<lparr>busy := True, view := view s @ [SetBusy True],
                    workers := workers s @ [\<lparr>kind = k, job_id = i\<rparr>]\<rparr>"
  by (simp add: dispatch_def)

lemma dispatch_frame [simp]:
  "posted (dispatch k s) = posted s" "current (dispatch k s) = current s"
  "cfg (dispatch k s) = cfg s" "ws (dispatch k s) = ws s" "files (dispatch k s) = files s"
  by (simp_all add: dispatch_def split: option.splits)

lemma inv_dispatch: "single_flight_inv s \<Longrightarrow> single_flight_inv (dispatch k s)"
  by (cases "current s"; cases "busy s")
     (auto simp: single_flight_inv_def dispatch_def)

lemma inv_fire:
  assumes "single_flight_inv s"
  shows "single_flight_inv (fire K s it)"
proof (cases it)
  case (Switch name)
  with assms show ?thesis
    using current_openOrSwitch [of s K name] by (auto simp: single_flight_inv_def)
next
  case Resolve
  with assms show ?thesis by (simp add: resolveAsync_def inv_dispatch)
next
  case Export
  with assms show ?thesis by (simp add: exportAsync_def inv_dispatch)
qed (use assms in \<open>simp_all add: single_flight_inv_def\<close>)

lemma worker_run_frame [simp]:
  "busy (worker_run K s n st) = busy s" "current (worker_run K s n st) = current s"
  "cfg (worker_run K s n st) = cfg s" "ws (worker_run K s n st) = ws s"
  "view (worker_run K s n st) = view s"
  by (simp_all add: worker_run_def Let_def split: sum.splits)

lemma worker_run_counts:
  "length (workers (worker_run K s n st)) + length (posted (worker_run K s n st))
     = length (workers s) + length (posted s)"
  by (auto simp: worker_run_def Let_def split: sum.splits)

lemma inv_worker_run: "single_flight_inv s \<Longrightarrow> single_flight_inv (worker_run K s n st)"
  using worker_run_counts [of K s n st] by (simp add: single_flight_inv_def)

lemma inv_ui_run: "single_flight_inv s \<Longrightarrow> single_flight_inv (ui_run s)"
  by (auto simp: single_flight_inv_def ui_run_def split: list.splits if_splits)

lemma inv_init: "single_flight_inv (presenter_init K fs0)"
  by (simp add: single_flight_inv_def presenter_init_def Let_def pushBanks_def)

lemma reachable_inv: "reachable K fs0 s \<Longrightarrow> single_flight_inv s"
  by (induction rule: reachable.induct)
     (simp_all add: inv_init inv_fire inv_worker_run inv_ui_run)

lemma reachable_demo_start: "reachable demo_core Map.empty demo_start"
  unfolding demo_start_def by (rule reachable.ui [OF reachable.init])

lemma statuses_append: "statuses (xs @ ys) = statuses xs @ statuses ys"
  by (induction xs rule: statuses.induct) simp_all

text \<open>
  Claim C1.  In every state a presenter can reach, at most one worker thread is in
  flight.  While the busy flag is set, a resolve or export request only adds the status
  \<open>Busy...\<close> to the view: no thread is started and nothing else changes.  From an idle
  state with a bank selected, two resolve requests in a row start one worker and draw one
  \<open>Busy...\<close> status; when that worker has run (whatever became of its output stream)
  and its posted closure has been run by the UI thread, the view has received one
  completion status, the busy flag is clear, and no worker or closure is left.
\<close>

theorem single_flight_law:
  assumes "reachable K fs0 s"
  shows "length (workers s) \<le> 1 \<and>
    (busy s \<longrightarrow>
       resolveAsync s = s\<lparr>view := view s @ [ShowStatus ''Busy...'']\<rparr> \<and>
       exportAsync s = s\<lparr>view := view s @ [ShowStatus ''Busy...'']\<rparr>) \<and>
    (\<not> busy s \<and> current s \<noteq> None \<longrightarrow>
       (let s2 = resolveAsync (resolveAsync s);
            s3 = worker_run K s2 0 st;
            s4 = ui_run s3
        in view s2 = view s @ [SetBusy True, ShowStatus ''Busy...''] \<and>
           length (workers s2) = 1 \<and> posted s2 = [] \<and> busy s2 \<and>
           workers s3 = [] \<and> length (posted s3) = 1 \<and> busy s3 \<and> view s3 = view s2 \<and>
           view s4 = view s3 @ [SetBusy False, ShowStatus (completion_status (hd (posted s3)))] \<and>
           workers s4 = [] \<and> posted s4 = [] \<and> \<not> busy s4))"
proof -
  from assms have inv: "single_flight_inv s" by (rule reachable_inv)
  then have one: "length (workers s) \<le> 1"
    by (simp add: single_flight_inv_def split: if_splits)
  have rejected: "dispatch k s = s\<lparr>view := view s @ [ShowStatus ''Busy...'']\<rparr>" if "busy s" for k
    using inv that by (intro dispatch_busy) (simp_all add: single_flight_inv_def)
  have twice: "let s2 = resolveAsync (resolveAsync s);
            s3 = worker_run K s2 0 st;
            s4 = ui_run s3
        in view s2 = view s @ [SetBusy True, ShowStatus ''Busy...''] \<and>
           length (workers s2) = 1 \<and> posted s2 = [] \<and> busy s2 \<and>
           workers s3 = [] \<and> length (posted s3) = 1 \<and> busy s3 \<and> view s3 = view s2 \<and>
           view s4 = view s3 @ [SetBusy False, ShowStatus (completion_status (hd (posted s3)))] \<and>
           workers s4 = [] \<and> posted s4 = [] \<and> \<not> busy s4"
    if idle: "\<not> busy s" and sel: "current s \<noteq> None"
  proof -
    from sel obtain i where i: "current s = Some i" by auto
    from inv idle have empty: "workers s = []" "posted s = []"
      by (simp_all add: single_flight_inv_def)
    let ?j = "\<lparr>kind = ResolveJob, job_id = i\<rparr>"
    let ?s1 = "s\<lparr>busy := True, view := view s @ [SetBusy True], workers := [?j]\<rparr>"
    have s1: "resolveAsync s = ?s1"
      using dispatch_idle [OF idle i, of ResolveJob] by (simp add: resolveAsync_def empty)
    have s2: "resolveAsync (resolveAsync s) = ?s1\<lparr>view := view ?s1 @ [ShowStatus ''Busy...'']\<rparr>"
      unfolding s1 by (simp add: resolveAsync_def dispatch_def showStatus_def i)
    show ?thesis
      unfolding s2
      by (simp add: Let_def empty worker_run_def ui_run_def split: sum.splits)
  qed
  from one rejected twice show ?thesis
    by (simp add: resolveAsync_def exportAsync_def)
qed

theorem single_flight_law_witness:
  "reachable demo_core Map.empty demo_start \<and> \<not> busy demo_start \<and> current demo_start \<noteq> None \<and>
   statuses (view (resolveAsync (resolveAsync demo_start)))
     = statuses (view demo_start) @ [''Busy...''] \<and>
   length (workers (resolveAsync (resolveAsync demo_start))) = 1 \<and>
   \<not> busy (ui_run (worker_run demo_core (resolveAsync (resolveAsync demo_start)) 0 OpenFailed))"
proof -
  have b: "\<not> busy demo_start" by code_simp
  have c: "current demo_start \<noteq> None" by code_simp
  from single_flight_law [OF reachable_demo_start, where st = OpenFailed] b c
  have "view (resolveAsync (resolveAsync demo_start))
          = view demo_start @ [SetBusy True, ShowStatus ''Busy...''] \<and>
        length (workers (resolveAsync (resolveAsync demo_start))) = 1 \<and>
        \<not> busy (ui_run (worker_run demo_core (resolveAsync (resolveAsync demo_start)) 0 OpenFailed))"
    by (simp add: Let_def)
  with reachable_demo_start b c show ?thesis
    by (simp add: statuses_append)
qed

section \<open>What a running job sees\<close>

lemma fire_while_busy:
  assumes "busy s" and "current s \<noteq> None"
  shows "busy (fire K s it) \<and> current (fire K s it) \<noteq> None \<and>
    workers (fire K s it) = workers s \<and> posted (fire K s it) = posted s \<and>
    cfg (fire K s it) = cfg s"
proof (cases it)
  case (Switch name)
  with assms show ?thesis
    using current_openOrSwitch [of s K name] by simp
next
  case Resolve
  with assms show ?thesis by (simp add: resolveAsync_def dispatch_busy)
next
  case Export
  with assms show ?thesis by (simp add: exportAsync_def dispatch_busy)
qed (use assms in simp_all)

lemma fires_while_busy:
  assumes "busy s" and "current s \<noteq> None"
  shows "busy (foldl (fire K) s its) \<and> current (foldl (fire K) s its) \<noteq> None \<and>
    workers (foldl (fire K) s its) = workers s \<and> posted (foldl (fire K) s its) = posted s \<and>
    cfg (foldl (fire K) s its) = cfg s"
  using assms
proof (induction its arbitrary: s)
  case Nil
  then show ?case by simp
next
  case (Cons it its)
  from fire_while_busy [OF Cons.prems, of K it]
  have step: "busy (fire K s it)" "current (fire K s it) \<noteq> None"
    "workers (fire K s it) = workers s" "posted (fire K s it) = posted s"
    "cfg (fire K s it) = cfg s"
    by simp_all
  from Cons.IH [OF step(1,2)] step(3,4,5) show ?case by simp
qed

lemma worker_run_single:
  assumes "workers s = [j]"
  shows "worker_run K s 0 st =
     (case job_result K (cfg s) (ws s) j of
        Inl e \<Rightarrow> s\<lparr>workers := [], posted := posted s @ [\<lparr>ckind = kind j, ok = False, path = []\<rparr>]\<rparr>
      | Inr txt \<Rightarrow>
          s\<lparr>workers := [],
            posted := posted s @ [\<lparr>ckind = kind j, ok = True, path = job_output K (cfg s) j\<rparr>],
            files := ofstream_write st (files s) (job_output K (cfg s) j) txt\<rparr>)"
  by (simp add: worker_run_def assms Let_def split: sum.splits)

text \<open>
  Claim C2, as stated, at a concrete input: bank 1 is selected and empty, and a resolve
  job (an export job) is dispatched; the output stream of the worker opens and writes.
  When the worker runs at once, the text it computes and writes is empty.  When the
  control flow inserts \<open>Hello\<close> into bank 1 after the dispatch and the worker runs then,
  the text holds \<open>Hello\<close>: the job has seen the later edit.
\<close>

theorem snapshot_counterexample:
  "current demo_start = Some 1 \<and> bank_rows (bank_of (ws demo_start) 1) = [] \<and>
   job_result demo_core (cfg (resolveAsync demo_start)) (ws (resolveAsync demo_start))
       (hd (workers (resolveAsync demo_start)))
     = Inr [] \<and>
   job_result demo_core
       (cfg (fire demo_core (resolveAsync demo_start) (Insert 1 10 ''Hello'')))
       (ws (fire demo_core (resolveAsync demo_start) (Insert 1 10 ''Hello'')))
       (hd (workers (fire demo_core (resolveAsync demo_start) (Insert 1 10 ''Hello''))))
     = Inr ''Hello;'' \<and>
   files (worker_run demo_core (resolveAsync demo_start) 0 (Wrote 6)) ''out/00001.resolved.txt''
     = Some [] \<and>
   files (worker_run demo_core (fire demo_core (resolveAsync demo_start) (Insert 1 10 ''Hello'')) 0
            (Wrote 6))
       ''out/00001.resolved.txt''
     = Some ''Hello;'' \<and>
   files (worker_run demo_core (exportAsync demo_start) 0 (Wrote 6)) ''out/00001.json''
     = Some [] \<and>
   files (worker_run demo_core (fire demo_core (exportAsync demo_start) (Insert 1 10 ''Hello'')) 0
            (Wrote 6))
       ''out/00001.json''
     = Some ''Hello;''"
  by code_simp

text \<open>
  Claim C2, amended.  A dispatched resolve or export job holds a copy of one thing, the id
  of the bank selected at dispatch.  Whatever callbacks the view fires between the
  dispatch and the run of the worker, the job stays the only one in flight and keeps that
  id, also when the selection changes, and the configuration stays the same.  The worker
  reads the workspace when it runs: the text it computes is that of the core applied to
  the workspace as those callbacks have left it.  When the core throws, the worker posts a
  failure and touches no file; otherwise it posts a success with the output path, and the
  files are whatever the unchecked output stream made of that text: unchanged when the
  stream did not open, else the output file holds the part of the text that reached it.
\<close>

theorem worker_reads_live_workspace:
  assumes "current s = Some i" and "\<not> busy s" and "workers s = []"
  shows "(let j = \<lparr>kind = k, job_id = i\<rparr>;
              s' = foldl (fire K) (dispatch k s) its
          in workers s' = [j] \<and> cfg s' = cfg s \<and>
             worker_run K s' 0 st =
               (case job_result K (cfg s) (ws s') j of
                  Inl e \<Rightarrow>
                    s'\<lparr>workers := [],
                       posted := posted s' @ [\<lparr>ckind = k, ok = False, path = []\<rparr>]\<rparr>
                | Inr txt \<Rightarrow>
                    s'\<lparr>workers := [],
                       posted := posted s' @
                         [\<lparr>ckind = k, ok = True, path = job_output K (cfg s) j\<rparr>],
                       files :=
                         (case st of
                            OpenFailed \<Rightarrow> files s'
                          | Wrote n \<Rightarrow> (files s')(job_output K (cfg s) j \<mapsto> take n txt))\<rparr>))"
proof -
  let ?j = "\<lparr>kind = k, job_id = i\<rparr>"
  let ?d = "dispatch k s"
  let ?s' = "foldl (fire K) ?d its"
  have d: "?d = s\<lparr>busy := True, view := view s @ [SetBusy True], workers := [?j]\<rparr>"
    using dispatch_idle [OF assms(2,1), of k] by (simp add: assms(3))
  have "busy ?d" "current ?d \<noteq> None"
    by (simp_all add: d assms(1))
  from fires_while_busy [OF this, of K its]
  have w: "workers ?s' = [?j]" and c: "cfg ?s' = cfg s"
    by (simp_all add: d)
  have wr: "ofstream_write st fs p t =
      (case st of OpenFailed \<Rightarrow> fs | Wrote n \<Rightarrow> fs(p \<mapsto> take n t))" for fs p t
    by (cases st) simp_all
  show ?thesis
    using worker_run_single [OF w, of K st] w c
    by (simp add: Let_def wr split: sum.splits)
qed

theorem worker_reads_live_workspace_witness:
  "current demo_start = Some 1 \<and> \<not> busy demo_start \<and> workers demo_start = [] \<and>
   workers (foldl (fire demo_core) (dispatch ResolveJob demo_start)
              [Insert 1 10 ''Hello'', Switch ''x00002''])
     = [\<lparr>kind = ResolveJob, job_id = 1\<rparr>] \<and>
   current (foldl (fire demo_core) (dispatch ResolveJob demo_start)
              [Insert 1 10 ''Hello'', Switch ''x00002''])
     = Some 2 \<and>
   job_result demo_core (cfg demo_start)
       (ws (foldl (fire demo_core) (dispatch ResolveJob demo_start)
              [Insert 1 10 ''Hello'', Switch ''x00002'']))
       \<lparr>kind = ResolveJob, job_id = 1\<rparr>
     = Inr ''Hello;'' \<and>
   files (worker_run demo_core
            (foldl (fire demo_core) (dispatch ResolveJob demo_start)
               [Insert 1 10 ''Hello'', Switch ''x00002''])
            0 OpenFailed)
     = files (foldl (fire demo_core) (dispatch ResolveJob demo_start)
               [Insert 1 10 ''Hello'', Switch ''x00002'']) \<and>
   posted (worker_run demo_core
            (foldl (fire demo_core) (dispatch ResolveJob demo_start)
               [Insert 1 10 ''Hello'', Switch ''x00002''])
            0 OpenFailed)
     = posted (foldl (fire demo_core) (dispatch ResolveJob demo_start)
               [Insert 1 10 ''Hello'', Switch ''x00002'']) @
       [\<lparr>ckind = ResolveJob, ok = True,
         path = job_output demo_core (cfg demo_start) \<lparr>kind = ResolveJob, job_id = 1\<rparr>\<rparr>]"
proof -
  let ?s' = "foldl (fire demo_core) (dispatch ResolveJob demo_start)
               [Insert 1 10 ''Hello'', Switch ''x00002'']"
  have c: "current demo_start = Some 1" by code_simp
  have b: "\<not> busy demo_start" by code_simp
  have w: "workers demo_start = []" by code_simp
  have n: "current ?s' = Some 2" by code_simp
  have r: "job_result demo_core (cfg demo_start) (ws ?s') \<lparr>kind = ResolveJob, job_id = 1\<rparr>
      = Inr ''Hello;''"
    by code_simp
  note live = worker_reads_live_workspace [OF c b w, of ResolveJob demo_core
      "[Insert 1 10 ''Hello'', Switch ''x00002'']" OpenFailed, unfolded Let_def]
  from live have j: "workers ?s' = [\<lparr>kind = ResolveJob, job_id = 1\<rparr>]"
    by (rule conjunct1)
  from live [THEN conjunct2, THEN conjunct2]
  have run: "worker_run demo_core ?s' 0 OpenFailed =
      ?s'\<lparr>workers := [],
          posted := posted ?s' @
            [\<lparr>ckind = ResolveJob, ok = True,
              path = job_output demo_core (cfg demo_start) \<lparr>kind = ResolveJob, job_id = 1\<rparr>\<rparr>],
          files := files ?s'\<rparr>"
    by (simp only: r sum.case ofstream.case)
  have f: "files (worker_run demo_core ?s' 0 OpenFailed) = files ?s'"
    unfolding run by simp
  have q: "posted (worker_run demo_core ?s' 0 OpenFailed) = posted ?s' @
      [\<lparr>ckind = ResolveJob, ok = True,
        path = job_output demo_core (cfg demo_start) \<lparr>kind = ResolveJob, job_id = 1\<rparr>\<rparr>]"
    unfolding run by simp
  show ?thesis
    by (intro conjI) (rule c b w j n r f q)+
qed

section \<open>A failed resolve\<close>

text \<open>
  Claim C3, as stated, at a concrete input: bank 1 is selected and the resolver fails on
  the reference \<open>x00002.01.0a\<close>.  The status the view receives at the end is
  \<open>Resolve failed.\<close>; it does not name the reference.
\<close>

theorem failed_resolve_status_counterexample:
  "resolveBankToText failing_core (cfg demo_start) (ws demo_start) 1
     = Inl ''unresolved reference x00002.01.0a'' \<and>
   statuses (view (ui_run (worker_run failing_core (resolveAsync demo_start) 0 (Wrote 6))))
     = [''Ready. Loaded 0 banks.'', ''created'', ''Resolve failed.''] \<and>
   \<not> sublist ''x00002.01.0a'' ''Resolve failed.''"
  by code_simp

text \<open>
  Claim C3, amended.  When the resolver of a resolve job fails, the worker writes no file
  (it never comes to its output stream) and posts a failure; the UI thread then clears the busy state and shows the fixed status
  \<open>Resolve failed.\<close>, whatever the error was.  In the Win32 shell, where resolve runs
  on the spot, the error leaves \<^verbatim>\<open>resolveCurrent\<close> uncaught: no file and no status.
\<close>

theorem resolve_failure:
  assumes "workers s = [\<lparr>kind = ResolveJob, job_id = i\<rparr>]" and "posted s = []"
    and "resolveBankToText K (cfg s) (ws s) i = Inl e"
  shows "files (worker_run K s 0 st) = files s \<and>
    posted (worker_run K s 0 st) = [\<lparr>ckind = ResolveJob, ok = False, path = []\<rparr>] \<and>
    files (ui_run (worker_run K s 0 st)) = files s \<and>
    view (ui_run (worker_run K s 0 st)) = view s @ [SetBusy False, ShowStatus ''Resolve failed.''] \<and>
    \<not> busy (ui_run (worker_run K s 0 st)) \<and>
    (app_current a = Some i' \<and> resolveBankToText K (app_cfg a) (app_ws a) i' = Inl e' \<longrightarrow>
       resolveCurrent K a st' = Inl e')"
proof -
  have "worker_run K s 0 st =
      s\<lparr>workers := [], posted := [\<lparr>ckind = ResolveJob, ok = False, path = []\<rparr>]\<rparr>"
    using assms by (simp add: worker_run_single [OF assms(1)] job_result_def)
  then show ?thesis
    by (simp add: ui_run_def completion_status_def resolveCurrent_def)
qed

theorem resolve_failure_witness:
  "workers (resolveAsync demo_start) = [\<lparr>kind = ResolveJob, job_id = 1\<rparr>] \<and>
   posted (resolveAsync demo_start) = [] \<and>
   resolveBankToText failing_core (cfg (resolveAsync demo_start)) (ws (resolveAsync demo_start)) 1
     = Inl ''unresolved reference x00002.01.0a'' \<and>
   files (ui_run (worker_run failing_core (resolveAsync demo_start) 0 (Wrote 6)))
     = files (resolveAsync demo_start) \<and>
   \<not> busy (ui_run (worker_run failing_core (resolveAsync demo_start) 0 (Wrote 6)))"
proof -
  have w: "workers (resolveAsync demo_start) = [\<lparr>kind = ResolveJob, job_id = 1\<rparr>]"
    by code_simp
  have p: "posted (resolveAsync demo_start) = []" by code_simp
  have r: "resolveBankToText failing_core (cfg (resolveAsync demo_start))
      (ws (resolveAsync demo_start)) 1 = Inl ''unresolved reference x00002.01.0a''"
    by code_simp
  from resolve_failure [OF w p r, where st = "Wrote 6"] w p r show ?thesis by simp
qed

end
